theory Spec2Isabelle
  imports Main "HOL-Library.Multiset"
begin

section \<open>Errors\<close>

text \<open>
  The error values that flow through the coupon package. \<open>ErrInvalidPromoCode\<close> and
  \<open>ErrInvalidPromoLength\<close> are the two domain errors of package model;
  \<open>Canceled\<close> and \<open>DeadlineExceeded\<close> are the two values of \<open>ctx.Err()\<close>;
  \<open>External\<close> stands for an error produced outside the package (os.Open, gzip, the
  scanner, the S3 client); \<open>Errorf msg err\<close> is \<open>fmt.Errorf(msg + ": %w", err)\<close>.
  A Go \<open>error\<close> that may be nil is an \<open>error option\<close>, \<open>None\<close> being nil.
\<close>

datatype error =
    ErrInvalidPromoCode
  | ErrInvalidPromoLength
  | Canceled
  | DeadlineExceeded
  | External string
  | Errorf string error

section \<open>Coupon sets (internal/coupon/set.go)\<close>

text \<open>\<open>mapCouponSet\<close> wraps a Go \<open>map[string]struct{}\<close>: a map from codes to unit.\<close>

record mapCouponSet =
  coupons :: "string \<rightharpoonup> unit"

definition NewMapCouponSet :: "nat \<Rightarrow> mapCouponSet" where
  "NewMapCouponSet capacity = \<lparr>coupons = Map.empty\<rparr>"

definition Contains :: "mapCouponSet \<Rightarrow> string \<Rightarrow> bool" where
  "Contains s code = (case coupons s code of Some _ \<Rightarrow> True | None \<Rightarrow> False)"

definition Size :: "mapCouponSet \<Rightarrow> nat" where
  "Size s = card (dom (coupons s))"

definition Add :: "mapCouponSet \<Rightarrow> string \<Rightarrow> mapCouponSet" where
  "Add s code = s\<lparr>coupons := (coupons s)(code \<mapsto> ())\<rparr>"

text \<open>A set holding exactly the listed codes, built by repeated \<open>Add\<close>.\<close>

definition setOf :: "string list \<Rightarrow> mapCouponSet" where
  "setOf codes = foldl Add (NewMapCouponSet 0) codes"

section \<open>The validator (internal/coupon/validator.go)\<close>

text \<open>The \<open>validator\<close> struct; its logger has no influence on any result and is left out.\<close>

record validator =
  couponSets :: "mapCouponSet list"

record ValidatorConfig =
  FilePaths :: "string list"
  MinMatchCount :: int

definition DefaultValidatorConfig :: ValidatorConfig where
  "DefaultValidatorConfig =
     \<lparr>FilePaths = [''data/coupons/couponbase1.gz'',
                   ''data/coupons/couponbase2.gz'',
                   ''data/coupons/couponbase3.gz''],
      MinMatchCount = 2\<rparr>"

subsection \<open>countMatches\<close>

text \<open>
  \<open>countMatches\<close> starts one goroutine per coupon set and then runs a \<open>select\<close> loop.
  What the loop sees is a sequence of events, one per iteration: \<open>Recv i\<close>, the result
  sent by the worker of set \<open>i\<close> is taken from \<open>resultChan\<close>; or \<open>CtxDone\<close>, the
  branch \<open><-ctx.Done()\<close> is taken. The event list is the schedule of one call. When it
  is exhausted while the loop still waits, no branch of the \<open>select\<close> ever becomes
  ready: the call blocks forever, which is the value \<open>None\<close>.
\<close>

datatype event = Recv nat | CtxDone

fun countLoop :: "mapCouponSet list \<Rightarrow> string \<Rightarrow> int \<Rightarrow> int \<Rightarrow> event list \<Rightarrow> int option" where
  "countLoop sets promoCode matches checked [] =
     (if checked < int (length sets) then None else Some matches)"
| "countLoop sets promoCode matches checked (CtxDone # rest) = Some matches"
| "countLoop sets promoCode matches checked (Recv i # rest) =
     (if checked < int (length sets) then
        (let found = Contains (sets ! i) promoCode;
             checked' = checked + 1 in
         if found then
           (let matches' = matches + 1 in
            if matches' \<ge> 2 then Some matches'
            else
              (let remaining = int (length sets) - checked' in
               if matches' + remaining < 2 then Some matches'
               else countLoop sets promoCode matches' checked' rest))
         else
           (let remaining = int (length sets) - checked' in
            if matches + remaining < 2 then Some matches
            else countLoop sets promoCode matches checked' rest))
      else Some matches)"

text \<open>
  The call returns the match count; the second component records how many lookup
  goroutines the call launched (one per coupon set).
\<close>

definition countMatches :: "validator \<Rightarrow> event list \<Rightarrow> string \<Rightarrow> (int \<times> nat) option" where
  "countMatches v evs promoCode =
     (case countLoop (couponSets v) promoCode 0 0 evs of
        None \<Rightarrow> None
      | Some matches \<Rightarrow> Some (matches, length (couponSets v)))"

subsection \<open>Validate\<close>

text \<open>
  \<open>Validate\<close> returns a Go \<open>error\<close> (nil for a valid code), paired with the number of
  lookup goroutines launched on the way; \<open>None\<close> is a call that never returns.
  \<open>len(promoCode)\<close> is the length in bytes, as \<open>length\<close> is on a \<open>string\<close>.
\<close>

definition Validate :: "validator \<Rightarrow> event list \<Rightarrow> string \<Rightarrow> (error option \<times> nat) option" where
  "Validate v evs promoCode =
     (if length promoCode < 8 \<or> length promoCode > 10 then Some (Some ErrInvalidPromoLength, 0)
      else
        (case countMatches v evs promoCode of
           None \<Rightarrow> None
         | Some (matchCount, launched) \<Rightarrow>
             if matchCount < 2 then Some (Some ErrInvalidPromoCode, launched)
             else Some (None, launched)))"

text \<open>
  The doc comment of \<open>Validate\<close> and the message of \<open>ErrInvalidPromoLength\<close> state the
  bounds in characters. In a UTF-8 encoded string every character has exactly one byte
  that is not a continuation byte \<open>10xxxxxx\<close>, so \<open>characters\<close> counts those.
\<close>

definition isContinuation :: "char \<Rightarrow> bool" where
  "isContinuation c = (digit7 c \<and> \<not> digit6 c)"

definition characters :: "string \<Rightarrow> nat" where
  "characters s = length (filter (\<lambda>c. \<not> isContinuation c) s)"

subsection \<open>Close\<close>

text \<open>\<open>Close\<close> sets the slice to nil (the empty list) and returns a nil error.\<close>

definition Close :: "validator \<Rightarrow> validator \<times> error option" where
  "Close v = (v\<lparr>couponSets := []\<rparr>, None)"

subsection \<open>Schedules\<close>

text \<open>
  A schedule is admissible for \<open>n\<close> sets when every received result comes from a
  distinct worker \<open>i < n\<close>, and the loop is never left waiting: either the context
  is done at some point, or every worker delivers (the channel has capacity \<open>n\<close>, so
  a worker whose context is live always gets to send).
\<close>

fun received :: "event list \<Rightarrow> nat list" where
  "received [] = []"
| "received (Recv i # evs) = i # received evs"
| "received (CtxDone # evs) = received evs"

definition admissible :: "nat \<Rightarrow> event list \<Rightarrow> bool" where
  "admissible n evs =
     (distinct (received evs) \<and> list_all (\<lambda>i. i < n) (received evs) \<and>
      (CtxDone \<in> set evs \<or> list_all (\<lambda>i. i \<in> set (received evs)) [0..<n]))"

text \<open>The number of coupon sets that contain the code.\<close>

definition matchTotal :: "validator \<Rightarrow> string \<Rightarrow> nat" where
  "matchTotal v code = length (filter (\<lambda>s. Contains s code) (couponSets v))"


subsection \<open>NewValidator\<close>

text \<open>
  A \<open>Loader\<close> is the interface method \<open>Load(ctx, filePath) (CouponSet, error)\<close> with its
  context fixed: it returns a pair of a nilable set and a nilable error. A call that
  dereferences a nil set panics, which is the value \<open>Panic\<close>.
\<close>

type_synonym Loader = "string \<Rightarrow> mapCouponSet option \<times> error option"

datatype 'a exec = Panic | Return 'a

text \<open>
  The goroutines store the result of \<open>loader.Load(ctx, path)\<close> at the index of its path;
  after \<open>wg.Wait()\<close> the slice \<open>results\<close> holds one result per path, in the order of
  \<open>config.FilePaths\<close>. \<open>populate\<close> is the loop over \<open>results\<close> that follows: it
  returns at the first error, and otherwise appends the set and reads its \<open>Size()\<close>.
\<close>

fun populate :: "(string \<times> mapCouponSet option \<times> error option) list \<Rightarrow> mapCouponSet list \<Rightarrow>
                 (validator option \<times> error option) exec" where
  "populate [] sets = Return (Some \<lparr>couponSets = sets\<rparr>, None)"
| "populate ((path, cset, err) # rest) sets =
     (case err of
        Some e \<Rightarrow> Return (None, Some (Errorf (''failed to load coupon file '' @ path) e))
      | None \<Rightarrow>
          (case cset of
             None \<Rightarrow> Panic
           | Some s \<Rightarrow> populate rest (sets @ [s])))"

definition NewValidator :: "ValidatorConfig option \<Rightarrow> Loader \<Rightarrow> (validator option \<times> error option) exec" where
  "NewValidator config loader =
     (let config = (case config of None \<Rightarrow> DefaultValidatorConfig | Some c \<Rightarrow> c);
          results = map loader (FilePaths config)
      in populate (zip (FilePaths config) results) [])"

section \<open>The file loader and the S3 loader\<close>

text \<open>
  What lies outside the package is input to the model. A \<open>source\<close> is what opening an
  identifier gives: the open fails (\<open>os.Open\<close>, \<open>GetObject\<close>), or \<open>gzip.NewReader\<close>
  fails, or a \<open>bufio.Scanner\<close> runs over the decompressed bytes; then \<open>Readable ts e\<close>
  lists the values of \<open>scanner.Text()\<close> for the successful calls of \<open>Scan()\<close> and the
  value of \<open>scanner.Err()\<close> afterwards. A context is the value of \<open>ctx.Err()\<close> at each
  iteration of the scan loop (\<open>None\<close> while the context is live).
  \<open>strings.TrimSpace\<close> is a parameter, \<open>trim\<close>, of both loaders.
\<close>

datatype source = Unavailable error | NotGzip error | Readable "string list" "error option"

type_synonym "context" = "nat \<Rightarrow> error option"

text \<open>
  The scan loop, the same in both loaders: \<open>k\<close> counts the iterations, \<open>lineCount\<close>
  the codes added. The context is polled only when \<open>lineCount%1_000_000 == 0\<close>.
\<close>

fun scanLines :: "(string \<Rightarrow> string) \<Rightarrow> context \<Rightarrow> nat \<Rightarrow> string list \<Rightarrow> mapCouponSet \<Rightarrow> int \<Rightarrow>
                  error + mapCouponSet" where
  "scanLines trim ctx k [] cset lineCount = Inr cset"
| "scanLines trim ctx k (text # rest) cset lineCount =
     (case (if lineCount mod 1000000 = 0 then ctx k else None) of
        Some e \<Rightarrow> Inl e
      | None \<Rightarrow>
          (let line = trim text in
           if line \<noteq> [] then scanLines trim ctx (Suc k) rest (Add cset line) (lineCount + 1)
           else scanLines trim ctx (Suc k) rest cset lineCount))"

definition fileLoader_Load :: "(string \<Rightarrow> string) \<Rightarrow> context \<Rightarrow> (string \<Rightarrow> source) \<Rightarrow> string \<Rightarrow>
                               mapCouponSet option \<times> error option" where
  "fileLoader_Load trim ctx os_Open filePath =
     (case os_Open filePath of
        Unavailable err \<Rightarrow>
          (None, Some (Errorf (''failed to open coupon file '' @ filePath) err))
      | NotGzip err \<Rightarrow>
          (None, Some (Errorf (''failed to create gzip reader for '' @ filePath) err))
      | Readable texts scanErr \<Rightarrow>
          (case scanLines trim ctx 0 texts (NewMapCouponSet 100000000) 0 of
             Inl e \<Rightarrow> (None, Some e)
           | Inr cset \<Rightarrow>
               (case scanErr of
                  Some err \<Rightarrow> (None, Some (Errorf (''error reading coupon file '' @ filePath) err))
                | None \<Rightarrow> (Some cset, None))))"

record s3Loader =
  client :: "string \<Rightarrow> string \<Rightarrow> source"
  bucket :: string

definition s3Loader_Load :: "(string \<Rightarrow> string) \<Rightarrow> context \<Rightarrow> s3Loader \<Rightarrow> string \<Rightarrow>
                             mapCouponSet option \<times> error option" where
  "s3Loader_Load trim ctx l key =
     (case client l (bucket l) key of
        Unavailable err \<Rightarrow>
          (None, Some (Errorf (''failed to get object from S3 (bucket='' @ bucket l @
                               '', key='' @ key @ '')'') err))
      | NotGzip err \<Rightarrow>
          (None, Some (Errorf (''failed to create gzip reader for S3 object '' @ key) err))
      | Readable texts scanErr \<Rightarrow>
          (case scanLines trim ctx 0 texts (NewMapCouponSet 100000000) 0 of
             Inl e \<Rightarrow> (None, Some e)
           | Inr cset \<Rightarrow>
               (case scanErr of
                  Some err \<Rightarrow>
                    (None, Some (Errorf (''error reading coupon file from S3 '' @ key) err))
                | None \<Rightarrow> (Some cset, None))))"


text \<open>
  The behaviour of \<open>strings.TrimSpace\<close> on ASCII text: it strips the bytes
  \<open>\t \n \v \f \r\<close> and the space from both ends. It serves to run the loaders on
  concrete inputs.
\<close>

definition asciiSpace :: "char \<Rightarrow> bool" where
  "asciiSpace c = (c \<in> {CHR 0x09, CHR 0x0A, CHR 0x0B, CHR 0x0C, CHR 0x0D, CHR 0x20})"

definition trimASCII :: "string \<Rightarrow> string" where
  "trimASCII s = rev (dropWhile asciiSpace (rev (dropWhile asciiSpace s)))"

section \<open>The fallback loader (internal/coupon/s3_loader.go)\<close>

record fallbackLoader =
  s3Loader :: "Loader option"
  fileLoader :: Loader
  s3Prefix :: string
  s3Enabled :: bool

text \<open>The calls made to the two delegates, in order, with the identifier each was given.\<close>

datatype call = S3Call string | FileCall string

definition fallbackLoader_Load :: "fallbackLoader \<Rightarrow> string \<Rightarrow>
                                   (mapCouponSet option \<times> error option) \<times> call list" where
  "fallbackLoader_Load l filePath =
     (case (if s3Enabled l then s3Loader l else None) of
        Some s3 \<Rightarrow>
          (let s3Key = s3Prefix l @ filePath;
               (cset, err) = s3 s3Key
           in if err = None then ((cset, None), [S3Call s3Key])
              else (fileLoader l filePath, [S3Call s3Key, FileCall filePath]))
      | None \<Rightarrow> (fileLoader l filePath, [FileCall filePath]))"

section \<open>Sample data\<close>

text \<open>
  The three coupon files of the package's validator tests and a file with padded, blank
  and repeated lines, as a file system whose other paths do not exist; a context that
  is never done, one that is done from the second scan iteration on; the validator that
  holds the three sets; a fallback loader whose bucket is empty.
\<close>

definition sampleFiles :: "string \<Rightarrow> source" where
  "sampleFiles path =
     (if path = ''coupon1.gz'' then Readable [''VALIDCODE1'', ''COMMON1234'', ''TESTPROMO1''] None
      else if path = ''coupon2.gz'' then Readable [''VALIDCODE2'', ''COMMON1234'', ''TESTPROMO2''] None
      else if path = ''coupon3.gz'' then Readable [''VALIDCODE3'', ''TESTPROMO3''] None
      else if path = ''padded.gz'' then
        Readable [''  PADDED01  '', [], ''   '', ''PADDED01'', ''lowercase1''] None
      else Unavailable (External ''no such file or directory''))"

definition background :: "context" where
  "background k = None"

definition sampleValidator :: validator where
  "sampleValidator =
     \<lparr>couponSets = [setOf [''VALIDCODE1'', ''COMMON1234'', ''TESTPROMO1''],
                    setOf [''VALIDCODE2'', ''COMMON1234'', ''TESTPROMO2''],
                    setOf [''VALIDCODE3'', ''TESTPROMO3'']]\<rparr>"

definition singleValidator :: validator where
  "singleValidator = \<lparr>couponSets = [setOf [''VALIDCODE1'', ''COMMON1234'', ''TESTPROMO1'']]\<rparr>"

definition strictConfig :: ValidatorConfig where
  "strictConfig = \<lparr>FilePaths = [''coupon1.gz'', ''coupon2.gz'', ''coupon3.gz''], MinMatchCount = 3\<rparr>"

definition lenientConfig :: ValidatorConfig where
  "lenientConfig = \<lparr>FilePaths = [''coupon1.gz''], MinMatchCount = 1\<rparr>"

definition brokenConfig :: ValidatorConfig where
  "brokenConfig = \<lparr>FilePaths = [''coupon1.gz'', ''missing.gz'', ''coupon3.gz''], MinMatchCount = 2\<rparr>"

text \<open>
  Two codes that contain the letter U+00C9 (E with acute accent, the bytes C3 89 in
  UTF-8), one of ten characters and one of seven, and a validator whose two sets hold
  both; a file of 1,000,001 codes.
\<close>

definition tenCharacters :: string where
  "tenCharacters = ''PROMOCOD'' @ [CHR 0xC3, CHR 0x89] @ ''1''"

definition sevenCharacters :: string where
  "sevenCharacters = ''CAF'' @ [CHR 0xC3, CHR 0x89] @ ''123''"

definition accentedValidator :: validator where
  "accentedValidator =
     \<lparr>couponSets = [setOf [tenCharacters, sevenCharacters],
                    setOf [tenCharacters, sevenCharacters]]\<rparr>"




definition sampleLoader :: Loader where
  "sampleLoader = fileLoader_Load trimASCII background sampleFiles"

definition emptyBucket :: s3Loader where
  "emptyBucket = \<lparr>client = (\<lambda>b k. Unavailable (External ''NoSuchKey'')), bucket = ''coupons''\<rparr>"

definition sampleFallback :: fallbackLoader where
  "sampleFallback =
     \<lparr>s3Loader = Some (s3Loader_Load trimASCII background emptyBucket),
      fileLoader = sampleLoader, s3Prefix = ''prod/'', s3Enabled = True\<rparr>"

section \<open>The counting loop under a live context\<close>

lemma countLoop_live:
  assumes "CtxDone \<notin> set evs" "matches < 2"
    and "int (length sets) - checked \<le> int (length evs)"
  shows "\<exists>m. countLoop sets code matches checked evs = Some m \<and>
           (2 \<le> m \<longleftrightarrow>
            2 \<le> matches + int (length (filter (\<lambda>i. Contains (sets ! i) code)
                      (take (nat (int (length sets) - checked)) (received evs)))))"
  using assms
proof (induction evs arbitrary: matches checked)
  case Nil
  then show ?case by simp
next
  case (Cons e evs)
  then obtain i where e: "e = Recv i" by (cases e) auto
  let ?n = "int (length sets)"
  let ?P = "\<lambda>i. Contains (sets ! i) code"
  show ?case
  proof (cases "checked < ?n")
    case False
    then show ?thesis using Cons.prems e by simp
  next
    case True
    then have tk: "take (nat (?n - checked)) (i # received evs) =
                   i # take (nat (?n - (checked + 1))) (received evs)"
    proof -
      have "nat (?n - checked) = Suc (nat (?n - (checked + 1)))" using True by linarith
      then show ?thesis by simp
    qed
    have bound: "int (length (filter ?P (take (nat (?n - (checked + 1))) (received evs))))
                 \<le> ?n - (checked + 1)"
    proof -
      have "length (filter ?P (take (nat (?n - (checked + 1))) (received evs)))
            \<le> nat (?n - (checked + 1))"
        by (rule order_trans[OF length_filter_le]) simp
      then show ?thesis using True by linarith
    qed
    have pre: "CtxDone \<notin> set evs" "?n - (checked + 1) \<le> int (length evs)"
      using Cons.prems by auto
    show ?thesis
    proof (cases "?P i")
      case hit: True
      show ?thesis
      proof (cases "matches + 1 \<ge> 2")
        case True
        then show ?thesis using e hit \<open>checked < ?n\<close> tk by (simp add: Let_def)
      next
        case small: False
        show ?thesis
        proof (cases "matches + 1 + (?n - (checked + 1)) < 2")
          case True
          then show ?thesis using e hit small \<open>checked < ?n\<close> tk bound by (simp add: Let_def)
        next
          case False
          from small have "matches + 1 < 2" by simp
          from Cons.IH[OF pre(1) this pre(2)]
          show ?thesis using e hit small False \<open>checked < ?n\<close> tk
            by (simp add: Let_def algebra_simps)
        qed
      qed
    next
      case miss: False
      show ?thesis
      proof (cases "matches + (?n - (checked + 1)) < 2")
        case True
        then show ?thesis using e miss \<open>checked < ?n\<close> tk bound Cons.prems(2) by (simp add: Let_def)
      next
        case False
        from Cons.IH[OF pre(1) Cons.prems(2) pre(2)]
        show ?thesis using e miss False \<open>checked < ?n\<close> tk
          by (simp add: Let_def algebra_simps)
      qed
    qed
  qed
qed


lemma length_received_le: "length (received evs) \<le> length evs"
  by (induction evs rule: received.induct) auto

lemma received_perm:
  assumes "admissible n evs" "CtxDone \<notin> set evs"
  shows "mset (received evs) = mset [0..<n]"
proof -
  from assms have d: "distinct (received evs)"
    and sub: "set (received evs) \<subseteq> {0..<n}"
    and sup: "{0..<n} \<subseteq> set (received evs)"
    by (auto simp: admissible_def list_all_iff)
  then have "set (received evs) = set [0..<n]" by auto
  with d show ?thesis
    using set_eq_iff_mset_eq_distinct[of "received evs" "[0..<n]"] by simp
qed

lemma hits_total:
  assumes "mset js = mset [0..<length sets]"
  shows "length (filter (\<lambda>i. Contains (sets ! i) code) js) =
         length (filter (\<lambda>s. Contains s code) sets)"
proof -
  let ?P = "\<lambda>i. Contains (sets ! i) code"
  have "mset (filter ?P js) = mset (filter ?P [0..<length sets])"
    by (simp only: mset_filter assms)
  then have "length (filter ?P js) = length (filter ?P [0..<length sets])"
    by (rule mset_eq_length)
  also have "\<dots> = length (filter (\<lambda>s. Contains s code) (map (\<lambda>i. sets ! i) [0..<length sets]))"
    by (simp add: filter_map comp_def)
  also have "\<dots> = length (filter (\<lambda>s. Contains s code) sets)"
    by (simp add: map_nth)
  finally show ?thesis .
qed

lemma Validate_live:
  assumes len: "8 \<le> length code" "length code \<le> 10"
    and adm: "admissible (length (couponSets v)) evs"
    and live: "CtxDone \<notin> set evs"
  shows "Validate v evs code =
           Some (if 2 \<le> matchTotal v code then None else Some ErrInvalidPromoCode,
                 length (couponSets v))"
proof -
  let ?sets = "couponSets v"
  have perm: "mset (received evs) = mset [0..<length ?sets]"
    by (rule received_perm[OF adm live])
  then have lr: "length (received evs) = length ?sets"
    by (metis length_upt mset_eq_length minus_nat.diff_0)
  then have "int (length ?sets) - 0 \<le> int (length evs)"
    using length_received_le[of evs] by simp
  from countLoop_live[OF live _ this, of 0 code]
  obtain m where m: "countLoop ?sets code 0 0 evs = Some m"
    and dec: "2 \<le> m \<longleftrightarrow>
       2 \<le> int (length (filter (\<lambda>i. Contains (?sets ! i) code)
                 (take (length ?sets) (received evs))))"
    by auto
  have "take (length ?sets) (received evs) = received evs" using lr by simp
  with dec hits_total[OF perm, of code]
  have "2 \<le> m \<longleftrightarrow> 2 \<le> matchTotal v code"
    by (simp add: matchTotal_def)
  with m len show ?thesis
    by (auto simp: Validate_def countMatches_def)
qed

lemma length_filter_map_id:
  "length (filter (\<lambda>b. b) (map f xs)) = length (filter f xs)"
  by (induction xs) auto

lemma matchTotal_mset:
  "matchTotal v code = size (filter_mset (\<lambda>b. b) (mset (map (\<lambda>s. Contains s code) (couponSets v))))"
proof -
  let ?bs = "map (\<lambda>s. Contains s code) (couponSets v)"
  have "size (filter_mset (\<lambda>b. b) (mset ?bs)) = size (mset (filter (\<lambda>b. b) ?bs))"
    by (simp only: mset_filter)
  also have "\<dots> = length (filter (\<lambda>b. b) ?bs)"
    by (simp only: size_mset)
  also have "\<dots> = matchTotal v code"
    by (simp only: length_filter_map_id matchTotal_def)
  finally show ?thesis by simp
qed

lemma countLoop_few:
  assumes "length sets < 2"
  shows "countLoop sets code 0 0 evs \<noteq> Some m \<or> m < 2"
proof (cases evs)
  case Nil
  then show ?thesis by simp
next
  case (Cons e rest)
  from assms have "length sets = 0 \<or> length sets = 1" by linarith
  then show ?thesis using Cons by (cases e) (auto simp: Let_def)
qed

lemma countLoop_few_returns:
  assumes "length sets < 2" "admissible (length sets) evs"
  shows "\<exists>m. countLoop sets code 0 0 evs = Some m"
proof (cases evs)
  case Nil
  with assms show ?thesis by (auto simp: admissible_def list_all_iff)
next
  case (Cons e rest)
  from assms have "length sets = 0 \<or> length sets = 1" by linarith
  then show ?thesis using Cons by (cases e) (auto simp: Let_def)
qed

text \<open>The only values Validate ever returns: nil and the two domain errors.\<close>

lemma Validate_outcomes:
  "Validate v evs code = Some (r, launched) \<Longrightarrow>
     r = None \<or> r = Some ErrInvalidPromoCode \<or> r = Some ErrInvalidPromoLength"
  by (auto simp: Validate_def split: if_splits option.splits prod.splits)

text \<open>
  C1. Claim: for a code of valid length, Validate returns Valid if and only if the code is
  in at least MinMatchCount of the loaded sets. The threshold in \<open>Validate\<close> and
  \<open>countMatches\<close> is the literal 2 and \<open>MinMatchCount\<close> is never read. With the three
  sample files and \<open>MinMatchCount = 3\<close>, the code COMMON1234 lies in two sets and is
  accepted; with the first file alone and \<open>MinMatchCount = 1\<close>, the code VALIDCODE1 lies
  in one set and is rejected.
\<close>

theorem C1_MinMatchCount_not_consulted:
  "(case NewValidator (Some strictConfig) (fileLoader_Load trimASCII background sampleFiles) of
      Return (Some v, None) \<Rightarrow>
        MinMatchCount strictConfig = 3 \<and> matchTotal v ''COMMON1234'' = 2 \<and>
        Validate v [Recv 0, Recv 1, Recv 2] ''COMMON1234'' = Some (None, 3)
    | _ \<Rightarrow> False) \<and>
   (case NewValidator (Some lenientConfig) (fileLoader_Load trimASCII background sampleFiles) of
      Return (Some v, None) \<Rightarrow>
        MinMatchCount lenientConfig = 1 \<and> matchTotal v ''VALIDCODE1'' = 1 \<and>
        Validate v [Recv 0] ''VALIDCODE1'' = Some (Some ErrInvalidPromoCode, 1)
    | _ \<Rightarrow> False)"
  by (simp add: NewValidator_def fileLoader_Load_def sampleFiles_def trimASCII_def
      asciiSpace_def background_def Validate_def countMatches_def matchTotal_def Add_def
      NewMapCouponSet_def Contains_def strictConfig_def lenientConfig_def)

text \<open>
  The pre-filter in bytes: a code shorter than 8 or longer than 10 bytes gets
  ErrInvalidPromoLength whatever the coupon sets and the schedule are, and no lookup
  goroutine is launched; a code of 8 or of 10 bytes is never answered with
  ErrInvalidPromoLength.
\<close>

lemma Validate_byte_length_prefilter:
  "(length code < 8 \<or> 10 < length code \<longrightarrow>
      Validate v evs code = Some (Some ErrInvalidPromoLength, 0)) \<and>
   (length code = 8 \<or> length code = 10 \<longrightarrow>
      (\<forall>launched. Validate v evs code \<noteq> Some (Some ErrInvalidPromoLength, launched)))"
  by (auto simp: Validate_def split: option.splits)

lemma Validate_byte_length_prefilter_sample:
  "length ''SHORT12'' < 8 \<and>
   Validate sampleValidator [] ''SHORT12'' = Some (Some ErrInvalidPromoLength, 0) \<and>
   10 < length ''TOOLONGCODE'' \<and>
   Validate sampleValidator [] ''TOOLONGCODE'' = Some (Some ErrInvalidPromoLength, 0) \<and>
   length ''EIGHTCHR'' = 8 \<and>
   Validate sampleValidator [Recv 0, Recv 1] ''EIGHTCHR'' \<noteq> Some (Some ErrInvalidPromoLength, 0) \<and>
   length ''COMMON1234'' = 10 \<and>
   Validate sampleValidator [Recv 0, Recv 1] ''COMMON1234'' \<noteq> Some (Some ErrInvalidPromoLength, 0)"
  using Validate_byte_length_prefilter [of "''SHORT12''" sampleValidator "[]"]
        Validate_byte_length_prefilter [of "''TOOLONGCODE''" sampleValidator "[]"]
        Validate_byte_length_prefilter [of "''EIGHTCHR''" sampleValidator "[Recv 0, Recv 1]"]
        Validate_byte_length_prefilter [of "''COMMON1234''" sampleValidator "[Recv 0, Recv 1]"]
  by simp

text \<open>
  C2. Claim: a code shorter than 8 or longer than 10 characters gets InvalidLength
  without any lookup, and codes of exactly 8 and exactly 10 characters pass the
  pre-filter. \<open>Validate\<close> measures \<open>len(promoCode)\<close>, the number of bytes. A code of ten
  characters, one of them two bytes long, has 11 bytes and is rejected with
  ErrInvalidPromoLength although both sets hold it; a code of seven characters with
  such a letter has 8 bytes, passes the pre-filter, is looked up in both sets and is
  accepted.
\<close>

theorem C2_length_counted_in_bytes:
  "characters tenCharacters = 10 \<and> length tenCharacters = 11 \<and>
   matchTotal accentedValidator tenCharacters = 2 \<and>
   Validate accentedValidator [Recv 0, Recv 1] tenCharacters =
     Some (Some ErrInvalidPromoLength, 0) \<and>
   characters sevenCharacters = 7 \<and> length sevenCharacters = 8 \<and>
   Validate accentedValidator [Recv 0, Recv 1] sevenCharacters = Some (None, 2)"
  by (simp add: characters_def isContinuation_def tenCharacters_def sevenCharacters_def
      accentedValidator_def matchTotal_def Validate_def countMatches_def setOf_def Add_def
      NewMapCouponSet_def Contains_def)

text \<open>
  C3. Claim: when the context is done before the quorum outcome is determined, Validate
  returns a Timeout/Cancelled outcome of its own. In the code the branch
  \<open><-ctx.Done()\<close> returns the matches counted so far, and Validate turns a count below 2
  into ErrInvalidPromoCode: a code held by two of the three sample sets is answered
  with ErrInvalidPromoCode when the context is done first, or after one result.
\<close>

theorem C3_cancelled_reported_as_invalid_code:
  "matchTotal sampleValidator ''COMMON1234'' = 2 \<and>
   Validate sampleValidator [CtxDone] ''COMMON1234'' = Some (Some ErrInvalidPromoCode, 3) \<and>
   Validate sampleValidator [Recv 0, CtxDone] ''COMMON1234'' = Some (Some ErrInvalidPromoCode, 3) \<and>
   Validate sampleValidator [Recv 0, Recv 1] ''COMMON1234'' = Some (None, 3)"
  by (simp add: Validate_def countMatches_def matchTotal_def sampleValidator_def setOf_def
      Add_def NewMapCouponSet_def Contains_def)

text \<open>
  C8. With a live context the decision of Validate depends only on the multiset of the
  per-set lookup results: two validators whose sets give the same multiset of results,
  under any two admissible schedules, get the same answer, which is the answer of
  counting all results and comparing the total with the threshold 2 of the loop.
\<close>

theorem C8_order_independent:
  assumes "8 \<le> length code" "length code \<le> 10"
    and "admissible (length (couponSets v)) evs" "CtxDone \<notin> set evs"
    and "admissible (length (couponSets v')) evs'" "CtxDone \<notin> set evs'"
    and "mset (map (\<lambda>s. Contains s code) (couponSets v)) =
         mset (map (\<lambda>s. Contains s code) (couponSets v'))"
  shows "Validate v evs code = Validate v' evs' code \<and>
         Validate v evs code =
           Some (if 2 \<le> matchTotal v code then None else Some ErrInvalidPromoCode,
                 length (couponSets v))"
proof -
  have t: "matchTotal v code = matchTotal v' code"
    by (simp only: matchTotal_mset assms(7))
  have "length (map (\<lambda>s. Contains s code) (couponSets v)) =
        length (map (\<lambda>s. Contains s code) (couponSets v'))"
    by (rule mset_eq_length[OF assms(7)])
  then have l: "length (couponSets v) = length (couponSets v')" by simp
  show ?thesis
    using Validate_live[OF assms(1,2,3,4)] Validate_live[OF assms(1,2,5,6)] t l by simp
qed

theorem C8_order_independent_witness:
  "Validate sampleValidator [Recv 0, Recv 1, Recv 2] ''COMMON1234'' =
     Validate sampleValidator [Recv 2, Recv 1, Recv 0] ''COMMON1234'' \<and>
   Validate sampleValidator [Recv 0, Recv 1, Recv 2] ''COMMON1234'' = Some (None, 3)"
proof -
  have a: "admissible (length (couponSets sampleValidator)) [Recv 0, Recv 1, Recv 2]"
    and b: "admissible (length (couponSets sampleValidator)) [Recv 2, Recv 1, Recv 0]"
    by (simp_all add: admissible_def sampleValidator_def upt_rec)
  have m: "matchTotal sampleValidator ''COMMON1234'' = 2"
    by (simp add: matchTotal_def sampleValidator_def setOf_def Add_def NewMapCouponSet_def
        Contains_def)
  have l: "length (couponSets sampleValidator) = 3"
    by (simp add: sampleValidator_def)
  show ?thesis
    using C8_order_independent [of "''COMMON1234''" sampleValidator "[Recv 0, Recv 1, Recv 2]"
        sampleValidator "[Recv 2, Recv 1, Recv 0]", OF _ _ a _ b] m l
    by auto
qed

text \<open>
  C9. A validator that holds fewer than two coupon sets answers every code of valid
  length with ErrInvalidPromoCode under every admissible schedule, and under no
  schedule at all with nil.
\<close>

theorem C9_fewer_than_two_sets:
  assumes "length (couponSets v) < 2" "8 \<le> length code" "length code \<le> 10"
  shows "(admissible (length (couponSets v)) evs \<longrightarrow>
            Validate v evs code = Some (Some ErrInvalidPromoCode, length (couponSets v))) \<and>
         (\<forall>launched. Validate v evs code \<noteq> Some (None, launched))"
  using assms countLoop_few[OF assms(1), of code evs]
    countLoop_few_returns[OF assms(1), of evs code]
  by (auto simp: Validate_def countMatches_def split: option.splits)

theorem C9_fewer_than_two_sets_witness:
  "length (couponSets singleValidator) < 2 \<and> 8 \<le> length ''VALIDCODE1'' \<and>
   length ''VALIDCODE1'' \<le> 10 \<and> admissible (length (couponSets singleValidator)) [Recv 0] \<and>
   Contains (couponSets singleValidator ! 0) ''VALIDCODE1'' \<and>
   Validate singleValidator [Recv 0] ''VALIDCODE1'' = Some (Some ErrInvalidPromoCode, 1)"
proof -
  have a: "admissible (length (couponSets singleValidator)) [Recv 0]"
    by (simp add: admissible_def singleValidator_def)
  have c: "Contains (couponSets singleValidator ! 0) ''VALIDCODE1''"
    by (simp add: singleValidator_def setOf_def Add_def NewMapCouponSet_def Contains_def)
  have l: "length (couponSets singleValidator) = 1"
    by (simp add: singleValidator_def)
  show ?thesis
    using C9_fewer_than_two_sets [of singleValidator "''VALIDCODE1''" "[Recv 0]"] a c l
    by simp
qed

text \<open>
  C10. Close returns a nil error and leaves the validator with no coupon sets; closing
  again changes nothing; Validate on the closed validator, for a code of valid length,
  launches no lookup and returns ErrInvalidPromoCode under every schedule, also the
  empty one.
\<close>

theorem C10_validate_after_close:
  "snd (Close v) = None \<and> couponSets (fst (Close v)) = [] \<and>
   Close (fst (Close v)) = (fst (Close v), None) \<and>
   (8 \<le> length code \<and> length code \<le> 10 \<longrightarrow>
      Validate (fst (Close v)) evs code = Some (Some ErrInvalidPromoCode, 0))"
  by (cases evs; cases "hd evs") (auto simp: Close_def Validate_def countMatches_def)

theorem C10_validate_after_close_witness:
  "8 \<le> length ''COMMON1234'' \<and> length ''COMMON1234'' \<le> 10 \<and>
   Validate (fst (Close sampleValidator)) [] ''COMMON1234'' = Some (Some ErrInvalidPromoCode, 0) \<and>
   Validate sampleValidator [Recv 0, Recv 1] ''COMMON1234'' = Some (None, 3)"
proof -
  have "Validate sampleValidator [Recv 0, Recv 1] ''COMMON1234'' = Some (None, 3)"
    by (simp add: Validate_def countMatches_def sampleValidator_def setOf_def Add_def
        NewMapCouponSet_def Contains_def)
  then show ?thesis
    using C10_validate_after_close [of sampleValidator "''COMMON1234''" "[]"] by simp
qed

section \<open>Construction\<close>

lemma populate_success:
  "populate (zip ps (map loader ps)) acc = Return (Some v, e) \<Longrightarrow>
     e = None \<and> couponSets v = acc @ map (\<lambda>p. the (fst (loader p))) ps \<and>
     (\<forall>p \<in> set ps. \<exists>s. loader p = (Some s, None))"
proof (induction ps arbitrary: acc)
  case Nil
  then show ?case by auto
next
  case (Cons p ps)
  obtain cs err where lp: "loader p = (cs, err)" by (cases "loader p")
  from Cons.prems lp have err: "err = None" by (cases err) auto
  from Cons.prems lp err obtain s where cs: "cs = Some s" by (cases cs) auto
  from Cons.prems lp err cs
  have "populate (zip ps (map loader ps)) (acc @ [s]) = Return (Some v, e)" by simp
  from Cons.IH[OF this] lp err cs show ?case by simp
qed

lemma populate_first_error:
  "i < length ps \<Longrightarrow> snd (loader (ps ! i)) = Some e \<Longrightarrow>
   (\<forall>j<i. \<exists>s. loader (ps ! j) = (Some s, None)) \<Longrightarrow>
   populate (zip ps (map loader ps)) acc =
     Return (None, Some (Errorf (''failed to load coupon file '' @ ps ! i) e))"
proof (induction ps arbitrary: i acc)
  case Nil
  then show ?case by simp
next
  case (Cons p ps)
  show ?case
  proof (cases i)
    case 0
    with Cons.prems show ?thesis by (cases "loader p") simp
  next
    case (Suc i')
    from Cons.prems(3) Suc obtain s where s: "loader p = (Some s, None)" by fastforce
    have "\<forall>j<i'. \<exists>s. loader (ps ! j) = (Some s, None)"
      using Cons.prems(3) Suc by fastforce
    with Cons.IH[of i' "acc @ [s]"] Cons.prems(1,2) Suc s show ?thesis by simp
  qed
qed

text \<open>
  C4. If the load of any configured source returns an error, NewValidator returns no
  validator; the error it returns is that of the first failing source in the configured
  order, wrapped with that source's path. A validator, when one is returned, comes
  with a nil error and holds exactly one set per configured path, the set at index
  \<open>i\<close> being the one loaded from path \<open>i\<close>.
\<close>

theorem C4_construction_fail_fast:
  "(let paths = FilePaths (case config of None \<Rightarrow> DefaultValidatorConfig | Some c \<Rightarrow> c) in
    ((\<exists>p \<in> set paths. snd (loader p) \<noteq> None) \<longrightarrow>
       (\<forall>v e. NewValidator config loader \<noteq> Return (Some v, e))) \<and>
    (\<forall>i e. i < length paths \<and> snd (loader (paths ! i)) = Some e \<and>
           (\<forall>j<i. \<exists>s. loader (paths ! j) = (Some s, None)) \<longrightarrow>
       NewValidator config loader =
         Return (None, Some (Errorf (''failed to load coupon file '' @ paths ! i) e))) \<and>
    (\<forall>v e. NewValidator config loader = Return (Some v, e) \<longrightarrow>
       e = None \<and> length (couponSets v) = length paths \<and>
       (\<forall>i<length paths. loader (paths ! i) = (Some (couponSets v ! i), None))))"
proof -
  define paths where "paths = FilePaths (case config of None \<Rightarrow> DefaultValidatorConfig | Some c \<Rightarrow> c)"
  have nv: "NewValidator config loader = populate (zip paths (map loader paths)) []"
    by (simp add: NewValidator_def paths_def Let_def)
  have a: "\<forall>v e. NewValidator config loader \<noteq> Return (Some v, e)"
    if "\<exists>p \<in> set paths. snd (loader p) \<noteq> None"
  proof (intro allI notI)
    fix v e assume "NewValidator config loader = Return (Some v, e)"
    from populate_success[OF this[unfolded nv]] that show False by fastforce
  qed
  have b: "NewValidator config loader =
             Return (None, Some (Errorf (''failed to load coupon file '' @ paths ! i) e))"
    if "i < length paths" "snd (loader (paths ! i)) = Some e"
       "\<forall>j<i. \<exists>s. loader (paths ! j) = (Some s, None)" for i e
    unfolding nv by (rule populate_first_error[OF that])
  have c: "e = None \<and> length (couponSets v) = length paths \<and>
           (\<forall>i<length paths. loader (paths ! i) = (Some (couponSets v ! i), None))"
    if "NewValidator config loader = Return (Some v, e)" for v e
  proof -
    from populate_success[OF that[unfolded nv]]
    have e: "e = None" and cs: "couponSets v = map (\<lambda>p. the (fst (loader p))) paths"
      and ok: "\<forall>p \<in> set paths. \<exists>s. loader p = (Some s, None)" by simp_all
    have "loader (paths ! i) = (Some (couponSets v ! i), None)" if "i < length paths" for i
    proof -
      from ok that obtain s where "loader (paths ! i) = (Some s, None)" by fastforce
      then show ?thesis using cs that by simp
    qed
    with e cs show ?thesis by simp
  qed
  show ?thesis
    unfolding Let_def paths_def[symmetric] using a b c by blast
qed

theorem C4_construction_fail_fast_witness:
  "snd (sampleLoader (FilePaths brokenConfig ! 1)) \<noteq> None \<and>
   FilePaths brokenConfig ! 1 \<in> set (FilePaths brokenConfig) \<and>
   (\<exists>s. sampleLoader (FilePaths brokenConfig ! 0) = (Some s, None)) \<and>
   NewValidator (Some brokenConfig) sampleLoader =
     Return (None, Some (Errorf ''failed to load coupon file missing.gz''
                          (Errorf ''failed to open coupon file missing.gz''
                             (External ''no such file or directory''))))"
proof -
  have e: "snd (sampleLoader (FilePaths brokenConfig ! 1)) =
             Some (Errorf ''failed to open coupon file missing.gz''
                     (External ''no such file or directory''))"
    by (simp add: sampleLoader_def brokenConfig_def fileLoader_Load_def sampleFiles_def)
  have ok: "\<exists>s. sampleLoader (FilePaths brokenConfig ! 0) = (Some s, None)"
    by (simp add: sampleLoader_def brokenConfig_def fileLoader_Load_def sampleFiles_def
        trimASCII_def asciiSpace_def background_def)
  have l: "(1::nat) < length (FilePaths brokenConfig)"
    and p: "FilePaths brokenConfig ! 1 = ''missing.gz''"
    by (simp_all add: brokenConfig_def)
  from ok have prev: "\<forall>j<1::nat. \<exists>s. sampleLoader (FilePaths brokenConfig ! j) = (Some s, None)"
    by simp
  have "NewValidator (Some brokenConfig) sampleLoader =
     Return (None, Some (Errorf (''failed to load coupon file '' @ FilePaths brokenConfig ! 1)
                          (Errorf ''failed to open coupon file missing.gz''
                             (External ''no such file or directory''))))"
    using C4_construction_fail_fast [of "Some brokenConfig" sampleLoader] l e prev
    unfolding Let_def option.case by blast
  with e ok p l show ?thesis by (simp add: brokenConfig_def)
qed

section \<open>Loading\<close>

lemma Contains_dom: "Contains s code \<longleftrightarrow> code \<in> dom (coupons s)"
  by (auto simp: Contains_def split: option.splits)

lemma scanLines_dom:
  "scanLines trim ctx k texts cs lc = Inr cs' \<Longrightarrow>
     dom (coupons cs') = dom (coupons cs) \<union> (trim ` set texts - {[]})"
proof (induction texts arbitrary: k cs lc)
  case Nil
  then show ?case by simp
next
  case (Cons t texts)
  show ?case
  proof (cases "trim t = []")
    case True
    with Cons.prems have "scanLines trim ctx (Suc k) texts cs lc = Inr cs'"
      by (simp split: option.splits)
    from Cons.IH[OF this] True show ?thesis by auto
  next
    case False
    with Cons.prems have "scanLines trim ctx (Suc k) texts (Add cs (trim t)) (lc + 1) = Inr cs'"
      by (simp add: Let_def split: option.splits)
    from Cons.IH[OF this] False show ?thesis by (auto simp: Add_def)
  qed
qed

lemma scanLines_live:
  "\<forall>j. ctx j = None \<Longrightarrow> \<exists>cs'. scanLines trim ctx k texts cs lc = Inr cs'"
  by (induction texts arbitrary: k cs lc) (auto simp: Let_def)




text \<open>
  C5. Whenever the file loader returns a set, the error is nil, the stream was read to
  its end without a scanner error, and the set holds exactly the lines of the stream
  after \<open>strings.TrimSpace\<close>, the empty ones left out: a code is in the set if and only
  if it is the trimmed form of some line and is not empty, and the size of the set is
  the number of distinct such codes. Nothing but trimming is applied to a line.
  Conversely, a stream that is read to its end under a live context does give a set.
\<close>

theorem C5_loader_builds_trimmed_set:
  "(\<forall>S e. fileLoader_Load trim ctx os_Open filePath = (Some S, e) \<longrightarrow>
      e = None \<and>
      (\<exists>texts. os_Open filePath = Readable texts None \<and>
         (\<forall>code. Contains S code \<longleftrightarrow> code \<noteq> [] \<and> code \<in> trim ` set texts) \<and>
         Size S = card (trim ` set texts - {[]}))) \<and>
   (\<forall>texts. os_Open filePath = Readable texts None \<and> (\<forall>k. ctx k = None) \<longrightarrow>
      (\<exists>S. fileLoader_Load trim ctx os_Open filePath = (Some S, None)))"
proof (intro conjI allI impI)
  fix S e assume r: "fileLoader_Load trim ctx os_Open filePath = (Some S, e)"
  then show "e = None"
    by (auto simp: fileLoader_Load_def split: source.splits sum.splits option.splits)
  from r obtain texts where o: "os_Open filePath = Readable texts None"
    and s: "scanLines trim ctx 0 texts (NewMapCouponSet 100000000) 0 = Inr S"
    by (auto simp: fileLoader_Load_def split: source.splits sum.splits option.splits)
  from scanLines_dom[OF s] have d: "dom (coupons S) = trim ` set texts - {[]}"
    by (simp add: NewMapCouponSet_def)
  have "\<forall>code. Contains S code \<longleftrightarrow> code \<noteq> [] \<and> code \<in> trim ` set texts"
    unfolding Contains_dom d by blast
  moreover have "Size S = card (trim ` set texts - {[]})"
    by (simp add: Size_def d)
  ultimately show "\<exists>texts. os_Open filePath = Readable texts None \<and>
         (\<forall>code. Contains S code \<longleftrightarrow> code \<noteq> [] \<and> code \<in> trim ` set texts) \<and>
         Size S = card (trim ` set texts - {[]})"
    using o by blast
next
  fix texts assume a: "os_Open filePath = Readable texts None \<and> (\<forall>k. ctx k = None)"
  then obtain cs' where "scanLines trim ctx 0 texts (NewMapCouponSet 100000000) 0 = Inr cs'"
    using scanLines_live[of ctx trim 0 texts "NewMapCouponSet 100000000" 0] by blast
  with a show "\<exists>S. fileLoader_Load trim ctx os_Open filePath = (Some S, None)"
    by (simp add: fileLoader_Load_def)
qed

theorem C5_loader_builds_trimmed_set_witness:
  "sampleFiles ''padded.gz'' =
     Readable [''  PADDED01  '', [], ''   '', ''PADDED01'', ''lowercase1''] None \<and>
   (\<forall>k. background k = None) \<and>
   (\<exists>S. fileLoader_Load trimASCII background sampleFiles ''padded.gz'' = (Some S, None) \<and>
        Contains S ''PADDED01'' \<and> Contains S ''lowercase1'' \<and>
        \<not> Contains S ''  PADDED01  '' \<and> \<not> Contains S ''LOWERCASE1'' \<and> \<not> Contains S [] \<and>
        Size S = 2)"
proof -
  let ?texts = "[''  PADDED01  '', [], ''   '', ''PADDED01'', ''lowercase1'']"
  have o: "sampleFiles ''padded.gz'' = Readable ?texts None"
    by (simp add: sampleFiles_def)
  have b: "\<forall>k. background k = None" by (simp add: background_def)
  have t: "trimASCII ` set ?texts - {[]} = {''PADDED01'', ''lowercase1''}"
    by (auto simp: trimASCII_def asciiSpace_def)
  from C5_loader_builds_trimmed_set [of trimASCII background sampleFiles "''padded.gz''"] o b
  obtain S where S: "fileLoader_Load trimASCII background sampleFiles ''padded.gz'' = (Some S, None)"
    by blast
  with C5_loader_builds_trimmed_set [of trimASCII background sampleFiles "''padded.gz''"] o
  have c: "\<forall>code. Contains S code \<longleftrightarrow> code \<noteq> [] \<and> code \<in> trimASCII ` set ?texts"
    and z: "Size S = card (trimASCII ` set ?texts - {[]})"
    by auto
  have m: "\<forall>code. Contains S code \<longleftrightarrow> code \<in> {''PADDED01'', ''lowercase1''}"
    unfolding t[symmetric] using c by blast
  have "Size S = 2" unfolding z t by simp
  with S m o b show ?thesis by simp
qed




text \<open>
  C7. With the primary enabled and present, a failed primary load is followed by one
  call of the secondary with the file path as it was given (the primary got the path
  behind the prefix), and the outcome is the secondary's outcome, so that when both
  fail the error is the secondary's. With the primary disabled or absent, the
  secondary is the only loader called. A primary load without error is returned as
  it is and the secondary is not called.
\<close>

theorem C7_fallback_chain:
  "(s3Enabled l \<and> s3Loader l = Some s3 \<and> snd (s3 (s3Prefix l @ filePath)) \<noteq> None \<longrightarrow>
      fallbackLoader_Load l filePath =
        (fileLoader l filePath, [S3Call (s3Prefix l @ filePath), FileCall filePath]) \<and>
      (\<forall>e2. snd (fileLoader l filePath) = Some e2 \<longrightarrow>
         snd (fst (fallbackLoader_Load l filePath)) = Some e2)) \<and>
   (\<not> s3Enabled l \<or> s3Loader l = None \<longrightarrow>
      fallbackLoader_Load l filePath = (fileLoader l filePath, [FileCall filePath])) \<and>
   (s3Enabled l \<and> s3Loader l = Some s3 \<and> snd (s3 (s3Prefix l @ filePath)) = None \<longrightarrow>
      fallbackLoader_Load l filePath =
        ((fst (s3 (s3Prefix l @ filePath)), None), [S3Call (s3Prefix l @ filePath)]))"
  by (auto simp: fallbackLoader_Load_def Let_def split: prod.splits option.splits)

theorem C7_fallback_chain_witness:
  "s3Enabled sampleFallback \<and>
   snd (fst (fallbackLoader_Load sampleFallback ''missing.gz'')) =
     Some (Errorf ''failed to open coupon file missing.gz'' (External ''no such file or directory'')) \<and>
   snd (fallbackLoader_Load sampleFallback ''missing.gz'') =
     [S3Call ''prod/missing.gz'', FileCall ''missing.gz''] \<and>
   \<not> s3Enabled (sampleFallback\<lparr>s3Enabled := False\<rparr>) \<and>
   snd (fallbackLoader_Load (sampleFallback\<lparr>s3Enabled := False\<rparr>) ''coupon1.gz'') =
     [FileCall ''coupon1.gz'']"
proof -
  let ?s3 = "s3Loader_Load trimASCII background emptyBucket"
  have p: "s3Enabled sampleFallback" "s3Loader sampleFallback = Some ?s3"
    "s3Prefix sampleFallback = ''prod/''" "fileLoader sampleFallback = sampleLoader"
    by (simp_all add: sampleFallback_def)
  have e1: "snd (?s3 (s3Prefix sampleFallback @ ''missing.gz'')) \<noteq> None"
    by (simp add: s3Loader_Load_def emptyBucket_def)
  have e2: "snd (fileLoader sampleFallback ''missing.gz'') =
     Some (Errorf ''failed to open coupon file missing.gz'' (External ''no such file or directory''))"
    by (simp add: p sampleLoader_def fileLoader_Load_def sampleFiles_def)
  have a: "fallbackLoader_Load sampleFallback ''missing.gz'' =
        (fileLoader sampleFallback ''missing.gz'',
         [S3Call (s3Prefix sampleFallback @ ''missing.gz''), FileCall ''missing.gz''])"
    using C7_fallback_chain [of sampleFallback ?s3 "''missing.gz''"] p(1,2) e1 by blast
  have b: "fallbackLoader_Load (sampleFallback\<lparr>s3Enabled := False\<rparr>) ''coupon1.gz'' =
        (fileLoader (sampleFallback\<lparr>s3Enabled := False\<rparr>) ''coupon1.gz'', [FileCall ''coupon1.gz''])"
    using C7_fallback_chain [of "sampleFallback\<lparr>s3Enabled := False\<rparr>" ?s3 "''coupon1.gz''"]
    by simp
  show ?thesis unfolding a b using p e2 by simp
qed

end
